theory Spec2Isabelle
  imports Main "HOL-Library.Sublist"
begin

section \<open>Python values and strings\<close>

text \<open>
  The exceptions that the modelled code can raise: \<open>ValueError\<close> from \<open>list.remove\<close>,
  \<open>AttributeError\<close> from reading an attribute of \<open>None\<close>, \<open>ReError\<close> from
  \<open>re.compile\<close>, and \<open>UserError\<close> for whatever a handler written by a bot author raises.
\<close>

datatype exn = ValueError | AttributeError | ReError | UserError string

text \<open>
  Texts are byte strings. \<open>str.lower\<close> is modelled on ASCII: the letters \<open>A\<close> to \<open>Z\<close>
  (codes 65 to 90) move up by 32, every other character stays.
\<close>

definition lower_char :: "char \<Rightarrow> char" where
  "lower_char c =
     (if (65::nat) \<le> of_char c \<and> of_char c \<le> (90::nat)
      then char_of (of_char c + (32::nat)) else c)"

definition str_lower :: "string \<Rightarrow> string" where
  "str_lower s = map lower_char s"

text \<open>
  \<open>s.split(sep)\<close> with an explicit one-character separator: every occurrence of the
  separator ends a token, so neighbouring separators give empty tokens and the result
  always has at least one token. (The second case of the inner \<open>case\<close> is the only one
  that is ever taken.)
\<close>

fun str_split :: "char \<Rightarrow> string \<Rightarrow> string list" where
  "str_split sep [] = [[]]"
| "str_split sep (c # cs) =
     (if c = sep then [] # str_split sep cs
      else (case str_split sep cs of
              [] \<Rightarrow> [[c]]
            | t # ts \<Rightarrow> (c # t) # ts))"

text \<open>\<open>s.lstrip(chars)\<close> and \<open>s.rstrip(chars)\<close>: drop the leading (trailing) characters
  that occur in \<open>chars\<close>.\<close>

definition lstrip :: "string \<Rightarrow> string \<Rightarrow> string" where
  "lstrip chars s = dropWhile (\<lambda>c. c \<in> set chars) s"

definition rstrip :: "string \<Rightarrow> string \<Rightarrow> string" where
  "rstrip chars s = rev (dropWhile (\<lambda>c. c \<in> set chars) (rev s))"

section \<open>User and Message\<close>

record user =
  user_id :: "string option"
  user_name :: string

text \<open>\<open>Message(user, room, text, id=None)\<close>; \<open>None\<close> is Python's \<open>None\<close>.\<close>

record message =
  m_user :: "user option"
  m_room :: string
  m_text :: "string option"
  m_id :: "nat option"

section \<open>Matchers\<close>

text \<open>
  \<open>Matcher.match(message)\<close> returns a match object or \<open>None\<close>. A compiled regular
  expression is represented by its \<open>search\<close> method, a function from the subject string
  to a match object or \<open>None\<close>; match objects of \<open>re\<close> are always truthy.
\<close>

type_synonym 'm matcher = "message \<Rightarrow> 'm option"

type_synonym 'm regex = "string \<Rightarrow> 'm option"

definition Matcher_match :: "'m matcher" where
  "Matcher_match message = None"

text \<open>\<open>RegexMatcher.match\<close>: \<open>if message.text:\<close> is false for \<open>None\<close> and for the
  empty string, and the method then falls off its end.\<close>

definition RegexMatcher_match :: "'m regex \<Rightarrow> 'm matcher" where
  "RegexMatcher_match regex message =
     (case m_text message of
        None \<Rightarrow> None
      | Some t \<Rightarrow> if t = [] then None else regex t)"

record 'm DirectMessageMatcher =
  wrapped :: "'m matcher"
  name :: string

definition DirectMessageMatcher_init :: "'m matcher \<Rightarrow> string \<Rightarrow> 'm DirectMessageMatcher" where
  "DirectMessageMatcher_init w n = \<lparr>wrapped = w, name = str_lower n\<rparr>"

definition DirectMessageMatcher_match :: "'m DirectMessageMatcher \<Rightarrow> 'm matcher" where
  "DirectMessageMatcher_match self message =
     (case m_text message of
        None \<Rightarrow> None
      | Some t \<Rightarrow>
          if t = [] then None
          else
            (let tokens = str_split CHR '' '' (str_lower t) in
             case tokens of
               [] \<Rightarrow> None
             | tok # _ \<Rightarrow>
                 (let first_token = rstrip '' :-='' (lstrip '' '' tok) in
                  if first_token = name self then wrapped self message else None)))"

text \<open>
  A model of \<open>re.compile(pattern).search\<close> for a pattern without metacharacters: the
  leftmost position where the pattern occurs in the subject, as the pair of the start and
  the end of the match (the match object's \<open>span()\<close>). The second argument counts the
  characters already passed.
\<close>

fun find_from :: "string \<Rightarrow> nat \<Rightarrow> string \<Rightarrow> (nat \<times> nat) option" where
  "find_from pat i [] = (if pat = [] then Some (i, i) else None)"
| "find_from pat i (c # cs) =
     (if prefix pat (c # cs) then Some (i, i + length pat)
      else find_from pat (Suc i) cs)"

definition literal_search :: "string \<Rightarrow> (nat \<times> nat) regex" where
  "literal_search pat subject = find_from pat 0 subject"

text \<open>
  The address check of \<open>DirectMessageMatcher.match\<close> is passed when the wrapped matcher
  is consulted; it is observed with a wrapped matcher that matches every message.
\<close>

definition addressed :: "string \<Rightarrow> message \<Rightarrow> bool" where
  "addressed botName message =
     (DirectMessageMatcher_match
        (DirectMessageMatcher_init (\<lambda>_. Some ()) botName) message = Some ())"

text \<open>Two strings are equal case-insensitively when their lower-cased forms are equal.\<close>

definition ci_eq :: "string \<Rightarrow> string \<Rightarrow> bool" where
  "ci_eq a b = (str_lower a = str_lower b)"

text \<open>
  The address check as the specification words it, with tokens delimited by whitespace
  (runs of space, tab, newline, carriage return, vertical tab, form feed, as in
  \<open>text.split()\<close>): the first token, stripped, equals the bot name case-insensitively,
  and a text without tokens is not addressed.
\<close>

definition is_whitespace :: "char \<Rightarrow> bool" where
  "is_whitespace c = (c \<in> set [CHR '' '', CHR 0x09, CHR 0x0A, CHR 0x0D, CHR 0x0B, CHR 0x0C])"

definition spec_first_token :: "string \<Rightarrow> string" where
  "spec_first_token t = takeWhile (\<lambda>c. \<not> is_whitespace c) (dropWhile is_whitespace t)"

definition spec_addressed :: "string \<Rightarrow> string \<Rightarrow> bool" where
  "spec_addressed botName t =
     (spec_first_token t \<noteq> [] \<and>
      ci_eq (rstrip '' :-='' (lstrip '' '' (spec_first_token t))) botName)"

text \<open>A message as the shell adapter builds it.\<close>

definition shell_message :: "string \<Rightarrow> message" where
  "shell_message t =
     \<lparr>m_user = Some \<lparr>user_id = None, user_name = ''Shell''\<rparr>,
      m_room = ''shell'', m_text = Some t, m_id = None\<rparr>"

section \<open>Computations with effects\<close>

text \<open>
  A Python call that changes state and may raise is a function from the state before to
  the outcome (\<open>Inl\<close> an exception, \<open>Inr\<close> the returned value) and the state after. The
  state changes made before an exception is raised are kept, as in Python.
\<close>

type_synonym ('a, 'w) py = "'w \<Rightarrow> (exn + 'a) \<times> 'w"

section \<open>EventBus\<close>

text \<open>
  Handlers are Python function objects; \<open>f not in listeners\<close> and \<open>list.remove\<close>
  compare them by identity, so a handler is represented by an identifier and its
  behaviour is looked up in a table \<open>impl\<close>. \<open>_listeners\<close> is a
  \<open>defaultdict(list)\<close>: every event type has a list, empty until something subscribes.
\<close>

type_synonym hid = nat

type_synonym ('d, 'w) handlers = "hid \<Rightarrow> 'd \<Rightarrow> (unit, 'w) py"

record EventBus =
  bus_listeners :: "string \<Rightarrow> hid list"

definition EventBus_init :: EventBus where
  "EventBus_init = \<lparr>bus_listeners = (\<lambda>_. [])\<rparr>"

fun publish_loop :: "('d, 'w) handlers \<Rightarrow> hid list \<Rightarrow> 'd \<Rightarrow> (unit, 'w) py" where
  "publish_loop impl [] data w = (Inr (), w)"
| "publish_loop impl (listener # rest) data w =
     (case impl listener data w of
        (Inl e, w') \<Rightarrow> (Inl e, w')
      | (Inr _, w') \<Rightarrow> publish_loop impl rest data w')"

definition EventBus_publish ::
  "('d, 'w) handlers \<Rightarrow> EventBus \<Rightarrow> string \<Rightarrow> 'd \<Rightarrow> (unit, 'w) py" where
  "EventBus_publish impl self etype data w = publish_loop impl (bus_listeners self etype) data w"

definition EventBus_subscribe :: "string \<Rightarrow> hid \<Rightarrow> EventBus \<Rightarrow> EventBus" where
  "EventBus_subscribe etype f self =
     (let listeners = bus_listeners self etype in
      if f \<notin> set listeners
      then self\<lparr>bus_listeners := (bus_listeners self)(etype := listeners @ [f])\<rparr>
      else self)"

text \<open>\<open>list.remove(f)\<close> removes the first occurrence and raises \<open>ValueError\<close> when
  there is none.\<close>

definition EventBus_unsubscribe :: "string \<Rightarrow> hid \<Rightarrow> EventBus \<Rightarrow> exn + EventBus" where
  "EventBus_unsubscribe etype f self =
     (let listeners = bus_listeners self etype in
      if f \<in> set listeners
      then Inr (self\<lparr>bus_listeners := (bus_listeners self)(etype := remove1 f listeners)\<rparr>)
      else Inl ValueError)"

text \<open>The invariant of the subscription lists: no handler twice for one event type.\<close>

definition bus_inv :: "EventBus \<Rightarrow> bool" where
  "bus_inv bus = (\<forall>etype. distinct (bus_listeners bus etype))"

text \<open>
  To observe which handlers run, every handler of a table is wrapped so that a call of it
  appends its identifier and the argument it was given to a log kept beside the state;
  the handler itself does not see the log.
\<close>

definition recording :: "('d, 'w) handlers \<Rightarrow> ('d, (hid \<times> 'd) list \<times> 'w) handlers" where
  "recording impl h data =
     (\<lambda>(log, w). case impl h data w of (r, w') \<Rightarrow> (r, (log @ [(h, data)], w')))"

text \<open>The log entries of calling each handler of a list with one argument.\<close>

definition calls :: "hid list \<Rightarrow> 'd \<Rightarrow> (hid \<times> 'd) list" where
  "calls hs data = map (\<lambda>h. (h, data)) hs"

section \<open>Adapter and ShellAdapter\<close>

text \<open>
  The outbound methods act on the lines written to standard output. A method that calls
  \<open>self.send\<close> takes as \<open>self_send\<close> the \<open>send\<close> that the object resolves to, which
  is a subclass's when the subclass overrides it.
\<close>

type_synonym send_method = "message \<Rightarrow> string \<Rightarrow> (unit, string list) py"

definition Adapter_send :: send_method where
  "Adapter_send message txt out = (Inr (), out)"

definition Adapter_emote :: "send_method \<Rightarrow> send_method" where
  "Adapter_emote self_send message txt out = self_send message txt out"

definition Adapter_reply :: "send_method \<Rightarrow> send_method" where
  "Adapter_reply self_send message txt out = (Inr (), out)"

definition Adapter_topic :: send_method where
  "Adapter_topic message txt out = (Inr (), out)"

definition Adapter_play :: send_method where
  "Adapter_play message txt out = (Inr (), out)"

definition ShellAdapter_send :: send_method where
  "ShellAdapter_send message txt out = (Inr (), out @ [txt])"

definition ShellAdapter_emote :: "send_method \<Rightarrow> send_method" where
  "ShellAdapter_emote self_send message txt out = self_send message (''* '' @ txt) out"

text \<open>\<open>message.user.name\<close> raises \<open>AttributeError\<close> when the message has no user.\<close>

definition ShellAdapter_reply :: "send_method \<Rightarrow> send_method" where
  "ShellAdapter_reply self_send message txt out =
     (case m_user message of
        None \<Rightarrow> (Inl AttributeError, out)
      | Some u \<Rightarrow> self_send message (user_name u @ '': '' @ txt) out)"

text \<open>The default \<open>reply\<close> of the base class as the specification words it: it
  delegates to \<open>send\<close> with the user's name as a prefix.\<close>

definition spec_Adapter_reply :: "send_method \<Rightarrow> send_method" where
  "spec_Adapter_reply self_send message txt out =
     (case m_user message of
        None \<Rightarrow> (Inl AttributeError, out)
      | Some u \<Rightarrow> self_send message (user_name u @ '': '' @ txt) out)"

section \<open>Response and Listener\<close>

record 'm Response =
  resp_message :: message
  resp_match :: 'm

type_synonym ('m, 's) handler = "'m Response \<Rightarrow> (unit, 's) py"

record ('m, 's) Listener =
  matcher :: "'m matcher"
  func :: "('m, 's) handler"

text \<open>\<open>Listener.__call__\<close>: the handler's return value is dropped, its exception is
  not caught here.\<close>

definition Listener_call :: "('m, 's) Listener \<Rightarrow> message \<Rightarrow> (bool, 's) py" where
  "Listener_call self message s =
     (case matcher self message of
        None \<Rightarrow> (Inr False, s)
      | Some match \<Rightarrow>
          (let response = \<lparr>resp_message = message, resp_match = match\<rparr> in
           case func self response s of
             (Inl e, s') \<Rightarrow> (Inl e, s')
           | (Inr _, s') \<Rightarrow> (Inr True, s')))"

section \<open>Robot\<close>

text \<open>
  The world of a running robot: the tracebacks that \<open>traceback.print_exc()\<close> has written
  to standard error, and the state the handlers act on.
\<close>

record 's world =
  stderr :: "exn list"
  store :: 's

definition print_exc :: "exn \<Rightarrow> 's world \<Rightarrow> 's world" where
  "print_exc e w = w\<lparr>stderr := stderr w @ [e]\<rparr>"

record ('m, 's) Robot =
  robot_name :: string
  robot_listeners :: "('m, 's) Listener list"
  robot_bus :: EventBus

definition Robot_init :: "string \<Rightarrow> ('m, 's) Robot" where
  "Robot_init n = \<lparr>robot_name = n, robot_listeners = [], robot_bus = EventBus_init\<rparr>"

text \<open>The loop of \<open>Robot.receive\<close>; the bare \<open>except:\<close> catches every exception.\<close>

fun receive_loop :: "('m, 's) Listener list \<Rightarrow> message \<Rightarrow> (unit, 's world) py" where
  "receive_loop [] message w = (Inr (), w)"
| "receive_loop (listener # rest) message w =
     (case Listener_call listener message (store w) of
        (Inl e, s') \<Rightarrow> receive_loop rest message (print_exc e (w\<lparr>store := s'\<rparr>))
      | (Inr _, s') \<Rightarrow> receive_loop rest message (w\<lparr>store := s'\<rparr>))"

definition Robot_receive :: "('m, 's) Robot \<Rightarrow> message \<Rightarrow> (unit, 's world) py" where
  "Robot_receive self message w = receive_loop (robot_listeners self) message w"

definition Robot_add_listener ::
  "'m matcher \<Rightarrow> ('m, 's) handler \<Rightarrow> ('m, 's) Robot \<Rightarrow> ('m, 's) Robot" where
  "Robot_add_listener mt f self =
     self\<lparr>robot_listeners := robot_listeners self @ [\<lparr>matcher = mt, func = f\<rparr>]\<rparr>"

text \<open>
  The registration combinators. \<open>robot.hear(pattern)\<close> only builds the closure
  \<open>wrapper\<close>; the functions below are the closures applied to the handler \<open>f\<close>: they
  give the value the call returns (\<open>None\<close> is Python's \<open>None\<close>) and the robot after it.
  \<open>re.compile\<close> is a parameter; it raises on a pattern that is not a regular expression.
\<close>

type_synonym 'm re_compile = "string \<Rightarrow> exn + 'm regex"

definition Robot_on ::
  "string \<Rightarrow> hid \<Rightarrow> ('m, 's) Robot \<Rightarrow> (exn + hid option) \<times> ('m, 's) Robot" where
  "Robot_on etype f self =
     (Inr (Some f), self\<lparr>robot_bus := EventBus_subscribe etype f (robot_bus self)\<rparr>)"

definition Robot_emit ::
  "('d, 'w) handlers \<Rightarrow> ('m, 's) Robot \<Rightarrow> string \<Rightarrow> 'd \<Rightarrow> (unit, 'w) py" where
  "Robot_emit impl self etype data w = EventBus_publish impl (robot_bus self) etype data w"

definition Robot_respond ::
  "'m re_compile \<Rightarrow> string \<Rightarrow> ('m, 's) handler \<Rightarrow> ('m, 's) Robot
     \<Rightarrow> (exn + ('m, 's) handler option) \<times> ('m, 's) Robot" where
  "Robot_respond compile pattern f self =
     (case compile pattern of
        Inl e \<Rightarrow> (Inl e, self)
      | Inr regex \<Rightarrow>
          (let mt = RegexMatcher_match regex;
               wrapper = DirectMessageMatcher_init mt (robot_name self)
           in (Inr None, Robot_add_listener (DirectMessageMatcher_match wrapper) f self)))"

definition Robot_hear ::
  "'m re_compile \<Rightarrow> string \<Rightarrow> ('m, 's) handler \<Rightarrow> ('m, 's) Robot
     \<Rightarrow> (exn + ('m, 's) handler option) \<times> ('m, 's) Robot" where
  "Robot_hear compile pattern f self =
     (case compile pattern of
        Inl e \<Rightarrow> (Inl e, self)
      | Inr regex \<Rightarrow>
          (let mt = RegexMatcher_match regex
           in (Inr (Some f), Robot_add_listener mt f self)))"

definition Robot_listen ::
  "'m matcher \<Rightarrow> ('m, 's) handler \<Rightarrow> ('m, 's) Robot
     \<Rightarrow> (exn + ('m, 's) handler option) \<times> ('m, 's) Robot" where
  "Robot_listen mt f self = (Inr (Some f), Robot_add_listener mt f self)"

text \<open>\<open>re.compile\<close> restricted to patterns without metacharacters.\<close>

definition compile_literal :: "(nat \<times> nat) re_compile" where
  "compile_literal pattern = Inr (literal_search pattern)"

text \<open>
  To observe which handlers \<open>receive\<close> runs, the handler of the listener at position
  \<open>i\<close> is wrapped so that each call appends \<open>i\<close> and the call's outcome to a log kept
  beside the handlers' state.
\<close>

type_synonym call_log = "(nat \<times> (exn + unit)) list"

definition traced :: "nat \<Rightarrow> ('m, 's) handler \<Rightarrow> ('m, call_log \<times> 's) handler" where
  "traced i f response =
     (\<lambda>(log, s). case f response s of (r, s') \<Rightarrow> (r, (log @ [(i, r)], s')))"

fun traced_listeners ::
  "nat \<Rightarrow> ('m, 's) Listener list \<Rightarrow> ('m, call_log \<times> 's) Listener list" where
  "traced_listeners k [] = []"
| "traced_listeners k (l # ls) =
     \<lparr>matcher = matcher l, func = traced k (func l)\<rparr> # traced_listeners (Suc k) ls"

definition traced_robot :: "('m, 's) Robot \<Rightarrow> ('m, call_log \<times> 's) Robot" where
  "traced_robot r =
     \<lparr>robot_name = robot_name r,
      robot_listeners = traced_listeners 0 (robot_listeners r),
      robot_bus = robot_bus r\<rparr>"

fun raised :: "call_log \<Rightarrow> exn list" where
  "raised [] = []"
| "raised ((i, Inl e) # rest) = e # raised rest"
| "raised ((i, Inr u) # rest) = raised rest"

text \<open>
  An example: three handlers subscribed to \<open>connected\<close>, of which handler 7 raises;
  every handler appends its identifier to the state.
\<close>

definition demo_handlers :: "(unit, nat list) handlers" where
  "demo_handlers h data w = (if h = 7 then Inl (UserError ''boom'') else Inr (), w @ [h])"

definition demo_bus :: EventBus where
  "demo_bus = EventBus_subscribe ''connected'' 3
            (EventBus_subscribe ''connected'' 7
               (EventBus_subscribe ''connected'' 1 EventBus_init))"

text \<open>
  The methods of \<open>Response\<close> forward to the robot's adapter, which \<open>_load_adapter\<close>
  always sets to a \<open>ShellAdapter\<close>; the handlers' state is then the lines written to
  standard output.
\<close>

definition Response_send :: "'m Response \<Rightarrow> string \<Rightarrow> (unit, string list) py" where
  "Response_send self txt = ShellAdapter_send (resp_message self) txt"

definition Response_reply :: "'m Response \<Rightarrow> string \<Rightarrow> (unit, string list) py" where
  "Response_reply self txt = ShellAdapter_reply ShellAdapter_send (resp_message self) txt"

definition Response_emote :: "'m Response \<Rightarrow> string \<Rightarrow> (unit, string list) py" where
  "Response_emote self txt = ShellAdapter_emote ShellAdapter_send (resp_message self) txt"

definition Response_topic :: "'m Response \<Rightarrow> string \<Rightarrow> (unit, string list) py" where
  "Response_topic self txt = Adapter_topic (resp_message self) txt"

text \<open>
  An example robot: a handler that raises after writing a line, registered with
  \<open>hear('hi')\<close>, and a handler that replies, registered with \<open>respond('status')\<close> and
  with \<open>hear('there')\<close>.
\<close>

definition greet :: "('m, string list) handler" where
  "greet response = Response_reply response ''hello''"

definition faulty :: "('m, string list) handler" where
  "faulty response out = (Inl (UserError ''boom''), out @ [''before the error''])"

definition demo_robot :: "(nat \<times> nat, string list) Robot" where
  "demo_robot =
     snd (Robot_hear compile_literal ''there'' greet
       (snd (Robot_respond compile_literal ''status'' greet
         (snd (Robot_hear compile_literal ''hi'' faulty (Robot_init ''Pybot''))))))"

section \<open>Facts about the string functions\<close>

lemma of_char_lower_char:
  "(of_char (lower_char c) :: nat) =
     (if 65 \<le> (of_char c :: nat) \<and> (of_char c :: nat) \<le> 90 then of_char c + 32 else of_char c)"
  by (simp add: lower_char_def of_char_of)

lemma lower_char_sep:
  assumes "x \<in> set '' :-=''"
  shows "lower_char c = x \<longleftrightarrow> c = x"
proof -
  have "((of_char (lower_char c) :: nat) = of_char x) = ((of_char c :: nat) = of_char x)"
    using assms by (auto simp: of_char_lower_char)
  then show ?thesis
    by (simp only: of_char_eq_iff)
qed

lemma lower_char_in_seps: "lower_char c \<in> set '' :-='' \<longleftrightarrow> c \<in> set '' :-=''"
  using lower_char_sep [of "lower_char c" c] lower_char_sep [of c c]
  by (metis lower_char_sep)

lemma lower_char_space: "lower_char c = CHR '' '' \<longleftrightarrow> c = CHR '' ''"
  by (rule lower_char_sep) simp

lemma str_split_nonempty: "str_split sep s \<noteq> []"
  by (induction s) (auto split: list.splits)

lemma hd_str_split: "hd (str_split sep s) = takeWhile (\<lambda>c. c \<noteq> sep) s"
  by (induction s) (auto split: list.splits simp: str_split_nonempty)

lemma str_split_cases:
  "(case str_split sep s of [] \<Rightarrow> a | tok # _ \<Rightarrow> f tok) = f (takeWhile (\<lambda>c. c \<noteq> sep) s)"
  using str_split_nonempty [of sep s] hd_str_split [of sep s]
  by (cases "str_split sep s") auto

lemma takeWhile_str_lower:
  "takeWhile (\<lambda>c. c \<noteq> CHR '' '') (str_lower s) = str_lower (takeWhile (\<lambda>c. c \<noteq> CHR '' '') s)"
  by (induction s) (auto simp: str_lower_def lower_char_space)

lemma lstrip_str_lower: "lstrip '' '' (str_lower s) = str_lower (lstrip '' '' s)"
  by (induction s) (auto simp: str_lower_def lstrip_def lower_char_space)

lemma dropWhile_seps_lower:
  "dropWhile (\<lambda>c. c \<in> set '' :-='') (map lower_char s) =
   map lower_char (dropWhile (\<lambda>c. c \<in> set '' :-='') s)"
proof (induction s)
  case Nil
  show ?case by simp
next
  case (Cons c s)
  show ?case
    using Cons.IH lower_char_in_seps [of c] by (cases "c \<in> set '' :-=''") simp_all
qed

lemma rstrip_str_lower: "rstrip '' :-='' (str_lower s) = str_lower (rstrip '' :-='' s)"
  unfolding rstrip_def str_lower_def
  by (simp only: rev_map dropWhile_seps_lower)

lemma find_from_None: "find_from pat i s = None \<longleftrightarrow> \<not> sublist pat s"
proof (induction s arbitrary: i)
  case Nil
  show ?case by simp
next
  case (Cons c cs)
  show ?case
    using Cons.IH [of "Suc i"] by (auto simp: sublist_Cons_right)
qed

lemma literal_search_Some_iff: "(\<exists>sp. literal_search pat s = Some sp) \<longleftrightarrow> sublist pat s"
  using find_from_None [of pat 0 s] by (auto simp: literal_search_def)

lemma find_from_Some:
  "find_from pat n s = Some (i, j) \<Longrightarrow>
     n \<le> i \<and> j = i + length pat \<and> prefix pat (drop (i - n) s) \<and>
     (\<forall>k. k < i - n \<longrightarrow> \<not> prefix pat (drop k s))"
proof (induction s arbitrary: n)
  case Nil
  then show ?case by (simp split: if_splits)
next
  case (Cons c cs)
  show ?case
  proof (cases "prefix pat (c # cs)")
    case True
    with Cons.prems show ?thesis by simp
  next
    case False
    with Cons.prems have rec: "find_from pat (Suc n) cs = Some (i, j)" by simp
    from Cons.IH [OF rec]
    have le: "Suc n \<le> i" and j: "j = i + length pat"
      and at: "prefix pat (drop (i - Suc n) cs)"
      and before: "\<forall>k. k < i - Suc n \<longrightarrow> \<not> prefix pat (drop k cs)"
      by simp_all
    from le have step: "i - n = Suc (i - Suc n)" by simp
    have "\<not> prefix pat (drop k (c # cs))" if "k < i - n" for k
    proof (cases k)
      case 0
      with False show ?thesis by simp
    next
      case (Suc k')
      with that step have "k' < i - Suc n" by simp
      with before Suc show ?thesis by simp
    qed
    with le j at step show ?thesis by simp
  qed
qed

section \<open>Facts about the matchers\<close>

lemma DirectMessageMatcher_match_addressed:
  "DirectMessageMatcher_match (DirectMessageMatcher_init w botName) message =
     (if addressed botName message then w message else None)"
  by (cases "m_text message")
     (simp_all add: addressed_def DirectMessageMatcher_match_def DirectMessageMatcher_init_def
        Let_def str_split_cases)

lemma addressed_iff:
  "addressed botName message \<longleftrightarrow>
     (\<exists>t. m_text message = Some t \<and> t \<noteq> [] \<and>
          ci_eq (rstrip '' :-='' (lstrip '' '' (takeWhile (\<lambda>c. c \<noteq> CHR '' '') t))) botName)"
  by (cases "m_text message")
     (simp_all add: addressed_def DirectMessageMatcher_match_def DirectMessageMatcher_init_def
        Let_def str_split_cases ci_eq_def takeWhile_str_lower lstrip_str_lower rstrip_str_lower)

lemma first_token_pybot_colon:
  "ci_eq (rstrip '' :-='' (lstrip '' '' (takeWhile (\<lambda>c. c \<noteq> CHR '' '') ''pybot: status'')))
     ''Pybot''"
  by code_simp

lemma first_token_PYBOT:
  "ci_eq (rstrip '' :-='' (lstrip '' '' (takeWhile (\<lambda>c. c \<noteq> CHR '' '') ''PYBOT status'')))
     ''Pybot''"
  by code_simp

lemma first_token_hello:
  "\<not> ci_eq (rstrip '' :-='' (lstrip '' '' (takeWhile (\<lambda>c. c \<noteq> CHR '' '') ''hello pybot'')))
     ''Pybot''"
  by code_simp

lemma search_status: "literal_search ''status'' ''pybot: status'' = Some (7, 13)"
  by code_simp

lemma search_foo: "literal_search ''foo'' ''some food'' = Some (5, 8)"
  by code_simp

lemma search_foo_bar: "literal_search ''foo'' ''bar'' = None"
  by code_simp

text \<open>
  C2, as the code has it. The tokens are cut at the space character only (\<open>split(' ')\<close>),
  not at whitespace: the address check of \<open>DirectMessageMatcher.match\<close> is passed
  exactly when the text is present and not empty, and the part of the text before its
  first space character, with leading spaces and trailing \<open>:\<close>, \<open>-\<close>, \<open>=\<close> and space
  characters stripped, equals the bot name case-insensitively; when the check is not
  passed (the text is absent or empty, or the first token differs) the result is none,
  whatever the wrapped matcher is.
\<close>

theorem DirectMessageMatcher_address_check:
  "(addressed botName message \<longleftrightarrow>
     (\<exists>t. m_text message = Some t \<and> t \<noteq> [] \<and>
          ci_eq (rstrip '' :-='' (lstrip '' '' (takeWhile (\<lambda>c. c \<noteq> CHR '' '') t))) botName))
   \<and> (\<not> addressed botName message \<longrightarrow>
        DirectMessageMatcher_match (DirectMessageMatcher_init w botName) message = None)"
proof (rule conjI)
  show "addressed botName message \<longleftrightarrow>
     (\<exists>t. m_text message = Some t \<and> t \<noteq> [] \<and>
          ci_eq (rstrip '' :-='' (lstrip '' '' (takeWhile (\<lambda>c. c \<noteq> CHR '' '') t))) botName)"
    by (rule addressed_iff)
  show "\<not> addressed botName message \<longrightarrow>
        DirectMessageMatcher_match (DirectMessageMatcher_init w botName) message = None"
    by (simp add: DirectMessageMatcher_match_addressed)
qed

text \<open>
  The examples of C2 for the bot name \<open>Pybot\<close>: the texts \<open>pybot: status\<close> and
  \<open>PYBOT status\<close> pass the address check, \<open>hello pybot\<close> does not and gives none.
\<close>

theorem DirectMessageMatcher_address_check_witness:
  "addressed ''Pybot'' (shell_message ''pybot: status'') \<and>
   addressed ''Pybot'' (shell_message ''PYBOT status'') \<and>
   \<not> addressed ''Pybot'' (shell_message ''hello pybot'') \<and>
   DirectMessageMatcher_match
     (DirectMessageMatcher_init (RegexMatcher_match (literal_search ''pybot'')) ''Pybot'')
     (shell_message ''hello pybot'') = None"
proof -
  let ?w = "RegexMatcher_match (literal_search ''pybot'')"
  show ?thesis
    using DirectMessageMatcher_address_check [of "''Pybot''" "shell_message ''pybot: status''" ?w]
      DirectMessageMatcher_address_check [of "''Pybot''" "shell_message ''PYBOT status''" ?w]
      DirectMessageMatcher_address_check [of "''Pybot''" "shell_message ''hello pybot''" ?w]
      first_token_pybot_colon first_token_PYBOT first_token_hello
    by (simp add: shell_message_def)
qed

text \<open>
  C2 as stated fails: in the text \<open>pybot<TAB>status\<close> the first whitespace-delimited
  token is \<open>pybot\<close>, which equals the bot name \<open>Pybot\<close> case-insensitively, but the
  code splits at spaces only, takes the whole text as the first token and does not pass
  the address check.
\<close>

theorem DirectMessageMatcher_whitespace_counterexample:
  "spec_addressed ''Pybot'' (''pybot'' @ [CHR 0x09] @ ''status'') \<and>
   \<not> addressed ''Pybot'' (shell_message (''pybot'' @ [CHR 0x09] @ ''status''))"
  by code_simp

text \<open>
  C5: when the address check is passed, \<open>DirectMessageMatcher.match\<close> returns exactly
  what the wrapped matcher returns on the same, unmodified message.
\<close>

theorem DirectMessageMatcher_delegates:
  "addressed botName message \<Longrightarrow>
     DirectMessageMatcher_match (DirectMessageMatcher_init w botName) message = w message"
  by (simp add: DirectMessageMatcher_match_addressed)

text \<open>
  For the text \<open>pybot: status\<close> the wrapped regex matcher for \<open>status\<close> sees the whole
  text: the match it reports starts at position 7, after the prefix \<open>pybot: \<close>.
\<close>

theorem DirectMessageMatcher_delegates_witness:
  "addressed ''Pybot'' (shell_message ''pybot: status'') \<and>
   DirectMessageMatcher_match
     (DirectMessageMatcher_init (RegexMatcher_match (literal_search ''status'')) ''Pybot'')
     (shell_message ''pybot: status'') = Some (7, 13)"
proof -
  have a: "addressed ''Pybot'' (shell_message ''pybot: status'')"
    using first_token_pybot_colon by (simp add: addressed_iff shell_message_def)
  show ?thesis
    using a DirectMessageMatcher_delegates [OF a, of "RegexMatcher_match (literal_search ''status'')"]
      search_status
    by (simp add: RegexMatcher_match_def shell_message_def)
qed

text \<open>
  C9, as the code has it: \<open>RegexMatcher.match\<close> returns none when the text is absent
  or is the empty string; for any other text it returns what the compiled pattern's
  unanchored \<open>search\<close> returns on that text. For a literal pattern the match is the
  leftmost occurrence of the pattern, and for the pattern \<open>foo\<close> there is a match exactly
  when the text contains \<open>foo\<close>.
\<close>

theorem RegexMatcher_match_search:
  "(m_text message = None \<longrightarrow> RegexMatcher_match regex message = None) \<and>
   (m_text message = Some [] \<longrightarrow> RegexMatcher_match regex message = None) \<and>
   (\<forall>t. m_text message = Some t \<and> t \<noteq> [] \<longrightarrow> RegexMatcher_match regex message = regex t) \<and>
   (\<forall>i j. RegexMatcher_match (literal_search pat) message = Some (i, j) \<longrightarrow>
      (\<exists>t. m_text message = Some t \<and> j = i + length pat \<and> prefix pat (drop i t) \<and>
           (\<forall>k. k < i \<longrightarrow> \<not> prefix pat (drop k t)))) \<and>
   ((\<exists>sp. RegexMatcher_match (literal_search ''foo'') message = Some sp) \<longleftrightarrow>
      (\<exists>t. m_text message = Some t \<and> sublist ''foo'' t))"
proof (intro conjI allI impI)
  assume "m_text message = None"
  then show "RegexMatcher_match regex message = None"
    by (simp add: RegexMatcher_match_def)
next
  assume "m_text message = Some []"
  then show "RegexMatcher_match regex message = None"
    by (simp add: RegexMatcher_match_def)
next
  fix t
  assume "m_text message = Some t \<and> t \<noteq> []"
  then show "RegexMatcher_match regex message = regex t"
    by (simp add: RegexMatcher_match_def)
next
  fix i j
  assume m: "RegexMatcher_match (literal_search pat) message = Some (i, j)"
  then obtain t where t: "m_text message = Some t" and f: "find_from pat 0 t = Some (i, j)"
    by (auto simp: RegexMatcher_match_def literal_search_def split: option.splits if_splits)
  from find_from_Some [OF f] t
  show "\<exists>t. m_text message = Some t \<and> j = i + length pat \<and> prefix pat (drop i t) \<and>
           (\<forall>k. k < i \<longrightarrow> \<not> prefix pat (drop k t))"
    by simp
next
  show "(\<exists>sp. RegexMatcher_match (literal_search ''foo'') message = Some sp) \<longleftrightarrow>
      (\<exists>t. m_text message = Some t \<and> sublist ''foo'' t)"
  proof (cases "m_text message")
    case None
    then show ?thesis by (simp add: RegexMatcher_match_def)
  next
    case (Some t)
    show ?thesis
    proof (cases "t = []")
      case True
      with Some show ?thesis by (simp add: RegexMatcher_match_def)
    next
      case False
      with Some literal_search_Some_iff [of "''foo''" t] show ?thesis
        by (simp add: RegexMatcher_match_def)
    qed
  qed
qed

theorem RegexMatcher_match_search_witness:
  "RegexMatcher_match (literal_search ''foo'') (shell_message ''some food'') = Some (5, 8) \<and>
   prefix ''foo'' (drop 5 ''some food'') \<and>
   RegexMatcher_match (literal_search ''foo'') (shell_message ''bar'') = None \<and>
   RegexMatcher_match (literal_search ''foo'') ((shell_message ''some food'')\<lparr>m_text := None\<rparr>) = None"
  using RegexMatcher_match_search [of "shell_message ''some food''" "literal_search ''foo''" "''foo''"]
    RegexMatcher_match_search [of "shell_message ''bar''" "literal_search ''foo''" "''foo''"]
    RegexMatcher_match_search [of "(shell_message ''some food'')\<lparr>m_text := None\<rparr>"
      "literal_search ''foo''" "''foo''"]
    search_foo search_foo_bar
  by (simp add: shell_message_def)

text \<open>
  C9 as stated fails for a text that is present but empty: the empty pattern is found in
  the empty text by \<open>search\<close>, yet \<open>RegexMatcher.match\<close> returns none without searching.
\<close>

theorem RegexMatcher_empty_text_counterexample:
  "m_text (shell_message []) = Some [] \<and>
   literal_search [] [] = Some (0, 0) \<and>
   RegexMatcher_match (literal_search []) (shell_message []) = None"
  by (simp add: shell_message_def literal_search_def RegexMatcher_match_def)

text \<open>
  C10: a message whose text is the empty string is treated like a message without text
  by both matchers, which return none for every compiled pattern, every wrapped matcher
  and every bot name; no search is made, even for a pattern that matches the empty
  string (as the empty pattern does).
\<close>

theorem empty_text_like_absent:
  "RegexMatcher_match regex (message\<lparr>m_text := Some []\<rparr>) = None \<and>
   RegexMatcher_match regex (message\<lparr>m_text := None\<rparr>) = None \<and>
   DirectMessageMatcher_match self (message\<lparr>m_text := Some []\<rparr>) = None \<and>
   DirectMessageMatcher_match self (message\<lparr>m_text := None\<rparr>) = None \<and>
   DirectMessageMatcher_match (DirectMessageMatcher_init (RegexMatcher_match regex') botName)
     (message\<lparr>m_text := Some []\<rparr>) = None \<and>
   literal_search [] [] = Some (0, 0) \<and>
   RegexMatcher_match (literal_search []) (message\<lparr>m_text := Some []\<rparr>) = None"
  by (simp add: RegexMatcher_match_def DirectMessageMatcher_match_def literal_search_def)

section \<open>Facts about the EventBus\<close>

lemma calls_simps [simp]:
  "calls [] d = []" "calls (h # hs) d = (h, d) # calls hs d" "calls (xs @ ys) d = calls xs d @ calls ys d"
  by (simp_all add: calls_def)

lemma count_list_calls: "count_list (calls hs d) (f, d) = count_list hs f"
  by (induction hs) auto

lemma publish_loop_recording:
  "\<exists>k r w'. k \<le> length hs \<and>
     publish_loop impl hs d w = (r, w') \<and>
     publish_loop (recording impl) hs d (log, w) = (r, (log @ calls (take k hs) d, w')) \<and>
     (r = Inr () \<longrightarrow> k = length hs)"
proof (induction hs arbitrary: log w)
  case Nil
  show ?case by simp
next
  case (Cons h hs)
  obtain r1 w1 where step: "impl h d w = (r1, w1)" by (cases "impl h d w")
  show ?case
  proof (cases r1)
    case (Inl e)
    with step have "publish_loop impl (h # hs) d w = (Inl e, w1)"
      and "publish_loop (recording impl) (h # hs) d (log, w) = (Inl e, (log @ calls (take 1 (h # hs)) d, w1))"
      by (simp_all add: recording_def)
    then show ?thesis by (intro exI [of _ 1]) auto
  next
    case (Inr u)
    from Cons.IH [where log = "log @ [(h, d)]" and w = w1]
    obtain k r w' where k: "k \<le> length hs"
      and a: "publish_loop impl hs d w1 = (r, w')"
      and b: "publish_loop (recording impl) hs d (log @ [(h, d)], w1) =
                (r, ((log @ [(h, d)]) @ calls (take k hs) d, w'))"
      and c: "r = Inr () \<longrightarrow> k = length hs"
      by blast
    from step Inr a b have "publish_loop impl (h # hs) d w = (r, w')"
      and "publish_loop (recording impl) (h # hs) d (log, w) =
             (r, (log @ calls (take (Suc k) (h # hs)) d, w'))"
      by (simp_all add: recording_def)
    with k c show ?thesis by (intro exI [of _ "Suc k"]) auto
  qed
qed



lemma subscribe_idem:
  "EventBus_subscribe etype f (EventBus_subscribe etype f bus) = EventBus_subscribe etype f bus"
  by (simp add: EventBus_subscribe_def Let_def)

lemma subscribe_funpow:
  "(EventBus_subscribe etype f ^^ Suc n) bus = EventBus_subscribe etype f bus"
  by (induction n) (simp_all add: subscribe_idem)

lemma bus_inv_init: "bus_inv EventBus_init"
  by (simp add: bus_inv_def EventBus_init_def)

lemma bus_inv_subscribe: "bus_inv bus \<Longrightarrow> bus_inv (EventBus_subscribe etype f bus)"
  by (simp add: bus_inv_def EventBus_subscribe_def Let_def)

lemma bus_inv_unsubscribe:
  "bus_inv bus \<Longrightarrow> EventBus_unsubscribe etype f bus = Inr bus' \<Longrightarrow> bus_inv bus'"
  by (auto simp: bus_inv_def EventBus_unsubscribe_def Let_def split: if_splits)

lemma count_list_distinct: "distinct xs \<Longrightarrow> x \<in> set xs \<Longrightarrow> count_list xs x = 1"
  by (induction xs) auto

lemma count_list_take_le: "count_list (take k xs) x \<le> count_list xs x"
proof -
  have "count_list xs x = count_list (take k xs) x + count_list (drop k xs) x"
    by (metis append_take_drop_id count_list_append)
  then show ?thesis by simp
qed

lemma subscribed_once:
  "bus_inv bus \<Longrightarrow> count_list (bus_listeners (EventBus_subscribe etype f bus) etype) f = 1"
proof -
  assume inv: "bus_inv bus"
  have "distinct (bus_listeners (EventBus_subscribe etype f bus) etype)"
    using bus_inv_subscribe [OF inv, of etype f] by (simp add: bus_inv_def)
  moreover have "f \<in> set (bus_listeners (EventBus_subscribe etype f bus) etype)"
    by (simp add: EventBus_subscribe_def Let_def)
  ultimately show ?thesis by (rule count_list_distinct)
qed

lemma remove1_distinct_filter:
  assumes "distinct xs"
  shows "remove1 x xs = filter (\<lambda>h. h \<noteq> x) xs"
proof -
  have "remove1 x xs = removeAll x xs"
    using assms by (rule distinct_remove1_removeAll)
  also have "\<dots> = filter (\<lambda>h. h \<noteq> x) xs"
    by (induction xs) auto
  finally show ?thesis .
qed

lemma demo_bus_listeners: "bus_listeners demo_bus ''connected'' = [1, 7, 3]"
  by (simp add: demo_bus_def EventBus_subscribe_def EventBus_init_def Let_def)



lemma publish_loop_recording_Cons:
  "\<exists>k r w'. k \<le> length hs \<and>
     publish_loop (recording impl) (h # hs) d (log, w) =
       (r, (log @ (h, d) # calls (take k hs) d, w'))"
proof -
  obtain r1 w1 where step: "impl h d w = (r1, w1)" by (cases "impl h d w")
  show ?thesis
  proof (cases r1)
    case (Inl e)
    with step have "publish_loop (recording impl) (h # hs) d (log, w) =
        (Inl e, (log @ (h, d) # calls (take 0 hs) d, w1))"
      by (simp add: recording_def)
    then show ?thesis by (intro exI [of _ 0]) auto
  next
    case (Inr u)
    from publish_loop_recording [of hs impl d w1 "log @ [(h, d)]"]
    obtain k r w' where k: "k \<le> length hs"
      and b: "publish_loop (recording impl) hs d (log @ [(h, d)], w1) =
                (r, ((log @ [(h, d)]) @ calls (take k hs) d, w'))"
      by blast
    from step Inr b have "publish_loop (recording impl) (h # hs) d (log, w) =
        (r, (log @ (h, d) # calls (take k hs) d, w'))"
      by (simp add: recording_def)
    with k show ?thesis by blast
  qed
qed

lemma publish_loop_recording_after:
  "publish_loop impl pre d w = (Inr (), w1) \<Longrightarrow>
     publish_loop (recording impl) (pre @ rest) d (log, w) =
       publish_loop (recording impl) rest d (log @ calls pre d, w1)"
proof (induction pre arbitrary: w log)
  case Nil
  then show ?case by simp
next
  case (Cons p pre)
  obtain r1 w' where step: "impl p d w = (r1, w')" by (cases "impl p d w")
  with Cons.prems obtain u where r1: "r1 = Inr u"
    and rest: "publish_loop impl pre d w' = (Inr (), w1)"
    by (cases r1) auto
  from Cons.IH [OF rest, where log = "log @ [(p, d)]"] step r1
  show ?case by (simp add: recording_def)
qed

lemma publish_loop_raise_prefix:
  "publish_loop impl pre d w = (Inl e, w1) \<Longrightarrow>
     publish_loop impl (pre @ rest) d w = (Inl e, w1)"
proof (induction pre arbitrary: w)
  case Nil
  then show ?case by simp
next
  case (Cons p pre)
  obtain r1 w' where step: "impl p d w = (r1, w')" by (cases "impl p d w")
  show ?case
  proof (cases r1)
    case (Inl e')
    with step Cons.prems show ?thesis by simp
  next
    case (Inr u)
    with step Cons.prems have "publish_loop impl pre d w' = (Inl e, w1)" by simp
    from Cons.IH [OF this] step Inr show ?thesis by simp
  qed
qed

lemma count_one_split:
  assumes "count_list (pre @ f # post) f = 1"
  shows "f \<notin> set pre \<and> f \<notin> set post"
  using assms by (simp add: count_list_0_iff [symmetric])

lemma called_once_after_prefix:
  assumes once: "count_list (pre @ f # post) f = 1"
    and pre: "publish_loop impl pre d w = (Inr (), w1)"
  shows "count_list (fst (snd (publish_loop (recording impl) (pre @ f # post) d (log, w)))) (f, d) =
           count_list log (f, d) + 1"
proof -
  from count_one_split [OF once] have np: "f \<notin> set pre" and nq: "f \<notin> set post" by simp_all
  from publish_loop_recording_Cons [of post impl f d "log @ calls pre d" w1]
  obtain k r w' where
    run: "publish_loop (recording impl) (f # post) d (log @ calls pre d, w1) =
            (r, ((log @ calls pre d) @ (f, d) # calls (take k post) d, w'))"
    by blast
  from nq have "f \<notin> set (take k post)" by (blast dest: in_set_takeD)
  then have zq: "count_list (take k post) f = 0" by simp
  from np have zp: "count_list pre f = 0" by simp
  from publish_loop_recording_after [OF pre, of "f # post" log] run zp zq
  show ?thesis by (simp add: count_list_calls)
qed

lemma not_called_after_raise:
  assumes once: "count_list (pre @ f # post) f = 1"
    and pre: "publish_loop impl pre d w = (Inl e, w1)"
  shows "count_list (fst (snd (publish_loop (recording impl) (pre @ f # post) d (log, w)))) (f, d) =
           count_list log (f, d) \<and>
         fst (publish_loop (recording impl) (pre @ f # post) d (log, w)) = Inl e"
proof -
  from count_one_split [OF once] have np: "f \<notin> set pre" by simp
  from publish_loop_recording [of pre impl d w log] pre
  obtain k where
    run: "publish_loop (recording impl) pre d (log, w) = (Inl e, (log @ calls (take k pre) d, w1))"
    by auto
  from np have "f \<notin> set (take k pre)" by (blast dest: in_set_takeD)
  then have z: "count_list (take k pre) f = 0" by simp
  from publish_loop_raise_prefix [OF run, of "f # post"] z
  show ?thesis by (simp add: count_list_calls)
qed

text \<open>
  C6, as the code has it: on a bus that satisfies its invariant, any number (at least
  one) of \<open>subscribe\<close> calls with the same event type and handler leaves the bus as a
  single call does, with the handler registered once. A later \<open>publish\<close> for the type
  never calls it twice; it calls it exactly once when the handlers subscribed before it
  return (also when the handler itself or a later one raises), and not at all when one
  of the handlers subscribed before it raises, the exception then leaving \<open>publish\<close>.
\<close>

theorem EventBus_subscribe_idempotent:
  assumes "bus_inv bus"
  shows "(EventBus_subscribe etype f ^^ Suc n) bus = EventBus_subscribe etype f bus \<and>
    bus_inv ((EventBus_subscribe etype f ^^ Suc n) bus) \<and>
    count_list (bus_listeners ((EventBus_subscribe etype f ^^ Suc n) bus) etype) f = 1 \<and>
    count_list (fst (snd (EventBus_publish (recording impl)
        ((EventBus_subscribe etype f ^^ Suc n) bus) etype data (log, w)))) (f, data)
      \<le> count_list log (f, data) + 1 \<and>
    (\<forall>pre post w1.
       bus_listeners ((EventBus_subscribe etype f ^^ Suc n) bus) etype = pre @ f # post \<and>
       publish_loop impl pre data w = (Inr (), w1) \<longrightarrow>
       count_list (fst (snd (EventBus_publish (recording impl)
          ((EventBus_subscribe etype f ^^ Suc n) bus) etype data (log, w)))) (f, data)
        = count_list log (f, data) + 1) \<and>
    (\<forall>pre post e w1.
       bus_listeners ((EventBus_subscribe etype f ^^ Suc n) bus) etype = pre @ f # post \<and>
       publish_loop impl pre data w = (Inl e, w1) \<longrightarrow>
       count_list (fst (snd (EventBus_publish (recording impl)
          ((EventBus_subscribe etype f ^^ Suc n) bus) etype data (log, w)))) (f, data)
        = count_list log (f, data) \<and>
       fst (EventBus_publish (recording impl)
          ((EventBus_subscribe etype f ^^ Suc n) bus) etype data (log, w)) = Inl e)"
proof -
  let ?bus = "(EventBus_subscribe etype f ^^ Suc n) bus"
  let ?hs = "bus_listeners ?bus etype"
  let ?after = "count_list (fst (snd (EventBus_publish (recording impl) ?bus etype data (log, w))))
                  (f, data)"
  have eq: "?bus = EventBus_subscribe etype f bus"
    by (rule subscribe_funpow)
  have inv: "bus_inv ?bus"
    unfolding eq using assms by (rule bus_inv_subscribe)
  have once: "count_list ?hs f = 1"
    unfolding eq using assms by (rule subscribed_once)
  from publish_loop_recording [of ?hs impl data w log]
  obtain k r w' where
    run: "publish_loop (recording impl) ?hs data (log, w) =
            (r, (log @ calls (take k ?hs) data, w'))"
    by blast
  have logk: "?after = count_list log (f, data) + count_list (take k ?hs) f"
    using run by (simp add: EventBus_publish_def count_list_calls)
  have "count_list (take k ?hs) f \<le> 1"
    using count_list_take_le [of k ?hs f] once by simp
  with logk have le: "?after \<le> count_list log (f, data) + 1" by simp
  have reached: "?after = count_list log (f, data) + 1"
    if "?hs = pre @ f # post \<and> publish_loop impl pre data w = (Inr (), w1)" for pre post w1
  proof -
    from that once have o: "count_list (pre @ f # post) f = 1" by simp
    from that have p: "publish_loop impl pre data w = (Inr (), w1)" by simp
    from called_once_after_prefix [OF o p, of log] that show ?thesis
      by (simp add: EventBus_publish_def)
  qed
  have aborted: "?after = count_list log (f, data) \<and>
      fst (EventBus_publish (recording impl) ?bus etype data (log, w)) = Inl e"
    if "?hs = pre @ f # post \<and> publish_loop impl pre data w = (Inl e, w1)" for pre post e w1
  proof -
    from that once have o: "count_list (pre @ f # post) f = 1" by simp
    from that have p: "publish_loop impl pre data w = (Inl e, w1)" by simp
    from not_called_after_raise [OF o p, of log] that show ?thesis
      by (simp add: EventBus_publish_def)
  qed
  from eq inv once le reached aborted show ?thesis by blast
qed

lemma demo_bus_inv: "bus_inv demo_bus"
  unfolding demo_bus_def by (intro bus_inv_subscribe bus_inv_init)

lemma demo_bus_resubscribe:
  "bus_listeners ((EventBus_subscribe ''connected'' h ^^ Suc 2) demo_bus) ''connected'' =
     (if h \<in> {1, 7, 3} then [1, 7, 3] else [1, 7, 3, h])"
  by (simp only: subscribe_funpow) (simp add: EventBus_subscribe_def Let_def demo_bus_listeners)

text \<open>
  C6 as stated fails: with the handlers 1, 7, 3 subscribed and 7 raising, handler 3
  subscribed three more times is registered once, yet \<open>publish\<close> stops at handler 7 and
  calls handler 3 zero times.
\<close>

theorem EventBus_subscribe_publish_counterexample:
  "bus_inv demo_bus \<and>
   count_list (bus_listeners ((EventBus_subscribe ''connected'' 3 ^^ Suc 2) demo_bus) ''connected'')
     3 = 1 \<and>
   EventBus_publish (recording demo_handlers)
       ((EventBus_subscribe ''connected'' 3 ^^ Suc 2) demo_bus) ''connected'' () ([], []) =
     (Inl (UserError ''boom''), ([(1, ()), (7, ())], [1, 7])) \<and>
   count_list (fst (snd (EventBus_publish (recording demo_handlers)
       ((EventBus_subscribe ''connected'' 3 ^^ Suc 2) demo_bus) ''connected'' () ([], []))))
     (3, ()) = 0"
  unfolding EventBus_publish_def demo_bus_resubscribe
  using demo_bus_inv
  by (simp add: recording_def demo_handlers_def)

text \<open>
  On the example bus: handler 7, subscribed again, is called once although it raises;
  handler 3 is behind the raising handler 7; on a new bus handler 5 is called once.
\<close>

theorem EventBus_subscribe_idempotent_witness:
  "bus_inv demo_bus \<and>
   bus_listeners ((EventBus_subscribe ''connected'' 7 ^^ Suc 2) demo_bus) ''connected'' =
     [1] @ 7 # [3] \<and>
   publish_loop demo_handlers [1] () [] = (Inr (), [1]) \<and>
   count_list (fst (snd (EventBus_publish (recording demo_handlers)
       ((EventBus_subscribe ''connected'' 7 ^^ Suc 2) demo_bus) ''connected'' () ([], []))))
     (7, ()) = 1 \<and>
   bus_listeners ((EventBus_subscribe ''connected'' 3 ^^ Suc 2) demo_bus) ''connected'' =
     [1, 7] @ 3 # [] \<and>
   publish_loop demo_handlers [1, 7] () [] = (Inl (UserError ''boom''), [1, 7]) \<and>
   fst (EventBus_publish (recording demo_handlers)
       ((EventBus_subscribe ''connected'' 3 ^^ Suc 2) demo_bus) ''connected'' () ([], []))
     = Inl (UserError ''boom'') \<and>
   bus_inv EventBus_init \<and>
   bus_listeners ((EventBus_subscribe ''connected'' 5 ^^ Suc 2) EventBus_init) ''connected'' =
     [] @ 5 # [] \<and>
   count_list (fst (snd (EventBus_publish (recording demo_handlers)
       ((EventBus_subscribe ''connected'' 5 ^^ Suc 2) EventBus_init) ''connected'' () ([], []))))
     (5, ()) = 1"
proof -
  note t7 = EventBus_subscribe_idempotent [OF demo_bus_inv, where etype = "''connected''" and f = 7 and n = 2
      and impl = demo_handlers and data = "()" and log = "[]" and w = "[]"]
  note t3 = EventBus_subscribe_idempotent [OF demo_bus_inv, where etype = "''connected''" and f = 3 and n = 2
      and impl = demo_handlers and data = "()" and log = "[]" and w = "[]"]
  note t5 = EventBus_subscribe_idempotent [OF bus_inv_init, where etype = "''connected''" and f = 5 and n = 2
      and impl = demo_handlers and data = "()" and log = "[]" and w = "[]"]
  have l7: "bus_listeners ((EventBus_subscribe ''connected'' 7 ^^ Suc 2) demo_bus) ''connected'' =
     [1] @ 7 # [3]"
    unfolding demo_bus_resubscribe by simp
  have p7: "publish_loop demo_handlers [1] () [] = (Inr (), [1])"
    by (simp add: demo_handlers_def)
  from t7 l7 p7 have c7: "count_list (fst (snd (EventBus_publish (recording demo_handlers)
       ((EventBus_subscribe ''connected'' 7 ^^ Suc 2) demo_bus) ''connected'' () ([], []))))
     (7, ()) = count_list [] (7::nat, ()) + 1"
    by blast
  have l3: "bus_listeners ((EventBus_subscribe ''connected'' 3 ^^ Suc 2) demo_bus) ''connected'' =
     [1, 7] @ 3 # []"
    unfolding demo_bus_resubscribe by simp
  have p3: "publish_loop demo_handlers [1, 7] () [] = (Inl (UserError ''boom''), [1, 7])"
    by (simp add: demo_handlers_def)
  from t3 l3 p3 have c3: "fst (EventBus_publish (recording demo_handlers)
       ((EventBus_subscribe ''connected'' 3 ^^ Suc 2) demo_bus) ''connected'' () ([], []))
     = Inl (UserError ''boom'')"
    by blast
  have e5: "(EventBus_subscribe ''connected'' 5 ^^ Suc 2) EventBus_init =
              EventBus_subscribe ''connected'' 5 EventBus_init"
    using t5 by (rule conjunct1)
  have l5: "bus_listeners ((EventBus_subscribe ''connected'' 5 ^^ Suc 2) EventBus_init) ''connected'' =
     [] @ 5 # []"
    unfolding e5 by (simp add: EventBus_subscribe_def EventBus_init_def Let_def)
  have p5: "publish_loop demo_handlers [] () [] = (Inr (), [])"
    by simp
  from t5 l5 p5 have c5: "count_list (fst (snd (EventBus_publish (recording demo_handlers)
       ((EventBus_subscribe ''connected'' 5 ^^ Suc 2) EventBus_init) ''connected'' () ([], []))))
     (5, ()) = count_list [] (5::nat, ()) + 1"
    by blast
  from c7 have c7': "count_list (fst (snd (EventBus_publish (recording demo_handlers)
       ((EventBus_subscribe ''connected'' 7 ^^ Suc 2) demo_bus) ''connected'' () ([], []))))
     (7, ()) = 1" by simp
  from c5 have c5': "count_list (fst (snd (EventBus_publish (recording demo_handlers)
       ((EventBus_subscribe ''connected'' 5 ^^ Suc 2) EventBus_init) ''connected'' () ([], []))))
     (5, ()) = 1" by simp
  from demo_bus_inv bus_inv_init l7 p7 c7' l3 p3 c3 l5 c5' show ?thesis by blast
qed

text \<open>
  C7: \<open>EventBus.unsubscribe\<close> raises \<open>ValueError\<close> (the specification's
  SubscriptionNotFoundError) when the handler is not in the list of the event type; when
  it is, on a bus that satisfies its invariant, the handler is removed, the other handlers
  keep their order, the other event types are untouched, and a later \<open>publish\<close> for the
  type does not call it.
\<close>

theorem EventBus_unsubscribe_removes:
  "(f \<notin> set (bus_listeners bus etype) \<longrightarrow> EventBus_unsubscribe etype f bus = Inl ValueError) \<and>
   (bus_inv bus \<and> f \<in> set (bus_listeners bus etype) \<longrightarrow>
      (\<exists>bus'. EventBus_unsubscribe etype f bus = Inr bus' \<and> bus_inv bus' \<and>
         f \<notin> set (bus_listeners bus' etype) \<and>
         bus_listeners bus' etype = filter (\<lambda>h. h \<noteq> f) (bus_listeners bus etype) \<and>
         (\<forall>t. t \<noteq> etype \<longrightarrow> bus_listeners bus' t = bus_listeners bus t) \<and>
         count_list (fst (snd (EventBus_publish (recording impl) bus' etype data (log, w))))
           (f, data) = count_list log (f, data)))"
proof (intro conjI impI)
  assume "f \<notin> set (bus_listeners bus etype)"
  then show "EventBus_unsubscribe etype f bus = Inl ValueError"
    by (simp add: EventBus_unsubscribe_def Let_def)
next
  assume a: "bus_inv bus \<and> f \<in> set (bus_listeners bus etype)"
  let ?bus' = "bus\<lparr>bus_listeners := (bus_listeners bus)(etype := remove1 f (bus_listeners bus etype))\<rparr>"
  let ?hs = "bus_listeners ?bus' etype"
  from a have d: "distinct (bus_listeners bus etype)" by (simp add: bus_inv_def)
  from a have un: "EventBus_unsubscribe etype f bus = Inr ?bus'"
    by (simp add: EventBus_unsubscribe_def Let_def)
  from a un have inv: "bus_inv ?bus'" by (blast intro: bus_inv_unsubscribe)
  have flt: "?hs = filter (\<lambda>h. h \<noteq> f) (bus_listeners bus etype)"
    using d by (simp add: remove1_distinct_filter)
  then have gone: "f \<notin> set ?hs" by simp
  have others: "\<forall>t. t \<noteq> etype \<longrightarrow> bus_listeners ?bus' t = bus_listeners bus t" by simp
  from publish_loop_recording [of ?hs impl data w log]
  obtain k r w' where
    run: "publish_loop (recording impl) ?hs data (log, w) =
            (r, (log @ calls (take k ?hs) data, w'))"
    by blast
  from gone have "f \<notin> set (take k ?hs)" by (blast dest: in_set_takeD)
  then have "count_list (take k ?hs) f = 0" by simp
  with run have cnt: "count_list (fst (snd (EventBus_publish (recording impl) ?bus' etype data (log, w))))
           (f, data) = count_list log (f, data)"
    by (simp add: EventBus_publish_def count_list_calls)
  from un inv gone flt others cnt
  show "\<exists>bus'. EventBus_unsubscribe etype f bus = Inr bus' \<and> bus_inv bus' \<and>
         f \<notin> set (bus_listeners bus' etype) \<and>
         bus_listeners bus' etype = filter (\<lambda>h. h \<noteq> f) (bus_listeners bus etype) \<and>
         (\<forall>t. t \<noteq> etype \<longrightarrow> bus_listeners bus' t = bus_listeners bus t) \<and>
         count_list (fst (snd (EventBus_publish (recording impl) bus' etype data (log, w))))
           (f, data) = count_list log (f, data)"
    by (intro exI [of _ ?bus']) (intro conjI)
qed

text \<open>On the example bus: handler 9 was never subscribed; handler 7 is removed.\<close>

theorem EventBus_unsubscribe_removes_witness:
  "9 \<notin> set (bus_listeners demo_bus ''connected'') \<and>
   EventBus_unsubscribe ''connected'' 9 demo_bus = Inl ValueError \<and>
   EventBus_unsubscribe ''disconnected'' 7 demo_bus = Inl ValueError \<and>
   bus_inv demo_bus \<and> 7 \<in> set (bus_listeners demo_bus ''connected'') \<and>
   (\<exists>bus'. EventBus_unsubscribe ''connected'' 7 demo_bus = Inr bus' \<and>
      bus_listeners bus' ''connected'' = [1, 3] \<and>
      EventBus_publish (recording demo_handlers) bus' ''connected'' () ([], []) =
        (Inr (), ([(1, ()), (3, ())], [1, 3])))"
proof -
  have i3: "bus_inv demo_bus"
    unfolding demo_bus_def by (intro bus_inv_subscribe bus_inv_init)
  have d: "bus_listeners demo_bus ''disconnected'' = []"
    by (simp add: demo_bus_def EventBus_subscribe_def EventBus_init_def Let_def)
  have pub: "publish_loop (recording demo_handlers) [1, 3] () ([], []) = (Inr (), ([(1, ()), (3, ())], [1, 3]))"
    by (simp add: recording_def demo_handlers_def)
  show ?thesis
    using i3 d pub demo_bus_listeners
      EventBus_unsubscribe_removes [of 9 demo_bus "''connected''" demo_handlers "()" "[]" "[]"]
      EventBus_unsubscribe_removes [of 7 demo_bus "''disconnected''" demo_handlers "()" "[]" "[]"]
      EventBus_unsubscribe_removes [of 7 demo_bus "''connected''" demo_handlers "()" "[]" "[]"]
    by (auto simp: EventBus_publish_def)
qed

section \<open>Facts about the Robot and the adapters\<close>

lemma receive_loop_traced:
  "\<exists>new s'.
     receive_loop (traced_listeners k ls) message \<lparr>stderr = err, store = (log, s)\<rparr> =
       (Inr (), \<lparr>stderr = err @ raised new, store = (log @ new, s')\<rparr>) \<and>
     map fst new = map fst (filter (\<lambda>(i, l). matcher l message \<noteq> None) (enumerate k ls)) \<and>
     receive_loop ls message \<lparr>stderr = err, store = s\<rparr> =
       (Inr (), \<lparr>stderr = err @ raised new, store = s'\<rparr>)"
proof (induction ls arbitrary: k err log s)
  case Nil
  show ?case by (intro exI [of _ "[]"]) simp
next
  case (Cons l ls)
  show ?case
  proof (cases "matcher l message")
    case None
    from Cons.IH [where k = "Suc k" and err = err and log = log and s = s]
    obtain new s' where
      "receive_loop (traced_listeners (Suc k) ls) message \<lparr>stderr = err, store = (log, s)\<rparr> =
         (Inr (), \<lparr>stderr = err @ raised new, store = (log @ new, s')\<rparr>)"
      "map fst new = map fst (filter (\<lambda>(i, l). matcher l message \<noteq> None) (enumerate (Suc k) ls))"
      "receive_loop ls message \<lparr>stderr = err, store = s\<rparr> =
         (Inr (), \<lparr>stderr = err @ raised new, store = s'\<rparr>)"
      by blast
    with None show ?thesis
      by (intro exI [of _ new] exI [of _ s']) (simp add: Listener_call_def)
  next
    case (Some mt)
    let ?resp = "\<lparr>resp_message = message, resp_match = mt\<rparr>"
    obtain r s1 where run: "func l ?resp s = (r, s1)" by (cases "func l ?resp s")
    show ?thesis
    proof (cases r)
      case (Inl e)
      from Cons.IH [where k = "Suc k" and err = "err @ [e]" and log = "log @ [(k, Inl e)]" and s = s1]
      obtain new s' where
        "receive_loop (traced_listeners (Suc k) ls) message
           \<lparr>stderr = err @ [e], store = (log @ [(k, Inl e)], s1)\<rparr> =
         (Inr (), \<lparr>stderr = (err @ [e]) @ raised new, store = ((log @ [(k, Inl e)]) @ new, s')\<rparr>)"
        "map fst new = map fst (filter (\<lambda>(i, l). matcher l message \<noteq> None) (enumerate (Suc k) ls))"
        "receive_loop ls message \<lparr>stderr = err @ [e], store = s1\<rparr> =
           (Inr (), \<lparr>stderr = (err @ [e]) @ raised new, store = s'\<rparr>)"
        by blast
      with Some run Inl show ?thesis
        by (intro exI [of _ "(k, Inl e) # new"] exI [of _ s'])
           (simp add: Listener_call_def traced_def print_exc_def)
    next
      case (Inr u)
      from Cons.IH [where k = "Suc k" and err = err and log = "log @ [(k, Inr u)]" and s = s1]
      obtain new s' where
        "receive_loop (traced_listeners (Suc k) ls) message
           \<lparr>stderr = err, store = (log @ [(k, Inr u)], s1)\<rparr> =
         (Inr (), \<lparr>stderr = err @ raised new, store = ((log @ [(k, Inr u)]) @ new, s')\<rparr>)"
        "map fst new = map fst (filter (\<lambda>(i, l). matcher l message \<noteq> None) (enumerate (Suc k) ls))"
        "receive_loop ls message \<lparr>stderr = err, store = s1\<rparr> =
           (Inr (), \<lparr>stderr = err @ raised new, store = s'\<rparr>)"
        by blast
      with Some run Inr show ?thesis
        by (intro exI [of _ "(k, Inr u) # new"] exI [of _ s'])
           (simp add: Listener_call_def traced_def)
    qed
  qed
qed

text \<open>
  C1: \<open>Robot.receive\<close> goes through the listeners in registration order and always
  returns normally. With the calls of the handlers logged (position of the listener and
  outcome of the call), the log gains exactly the positions of the listeners whose
  matcher matches the message, in ascending order and each once, whatever the earlier
  handlers did; the exceptions the handlers raised are the tracebacks written to standard
  error, in order; and the logging does not change the run.
\<close>

theorem Robot_receive_isolates_handlers:
  "\<exists>new s'.
     Robot_receive (traced_robot robot) message \<lparr>stderr = err, store = (log, s)\<rparr> =
       (Inr (), \<lparr>stderr = err @ raised new, store = (log @ new, s')\<rparr>) \<and>
     map fst new =
       map fst (filter (\<lambda>(i, l). matcher l message \<noteq> None) (enumerate 0 (robot_listeners robot))) \<and>
     distinct (map fst new) \<and>
     Robot_receive robot message \<lparr>stderr = err, store = s\<rparr> =
       (Inr (), \<lparr>stderr = err @ raised new, store = s'\<rparr>)"
proof -
  from receive_loop_traced [of 0 "robot_listeners robot" message err log s]
  obtain new s' where
    a: "receive_loop (traced_listeners 0 (robot_listeners robot)) message
          \<lparr>stderr = err, store = (log, s)\<rparr> =
        (Inr (), \<lparr>stderr = err @ raised new, store = (log @ new, s')\<rparr>)"
    and b: "map fst new =
       map fst (filter (\<lambda>(i, l). matcher l message \<noteq> None) (enumerate 0 (robot_listeners robot)))"
    and c: "receive_loop (robot_listeners robot) message \<lparr>stderr = err, store = s\<rparr> =
       (Inr (), \<lparr>stderr = err @ raised new, store = s'\<rparr>)"
    by blast
  have d: "distinct (map fst new)"
    unfolding b by (rule distinct_map_filter) simp
  from a b c d show ?thesis
    by (intro exI [of _ new] exI [of _ s']) (simp add: Robot_receive_def traced_robot_def)
qed

lemma demo_matching:
  "map fst (filter (\<lambda>(i, l). matcher l (shell_message ''hi there'') \<noteq> None)
     (enumerate 0 (robot_listeners demo_robot))) = [0, 2]"
  by code_simp

lemma demo_run:
  "Robot_receive demo_robot (shell_message ''hi there'') \<lparr>stderr = [], store = []\<rparr> =
     (Inr (), \<lparr>stderr = [UserError ''boom''],
               store = [''before the error'', ''Shell: hello'']\<rparr>)"
  by code_simp

lemma demo_run_bye:
  "Robot_receive demo_robot (shell_message ''bye'') \<lparr>stderr = [], store = []\<rparr> =
     (Inr (), \<lparr>stderr = [], store = []\<rparr>)"
  by code_simp

text \<open>
  On the example robot the text \<open>hi there\<close> matches the listeners 0 and 2: the handler of
  listener 0 raises, its traceback is written, and the handler of listener 2 still runs.
\<close>

theorem Robot_receive_isolates_handlers_witness:
  "\<exists>new.
     Robot_receive (traced_robot demo_robot) (shell_message ''hi there'')
         \<lparr>stderr = [], store = ([], [])\<rparr> =
       (Inr (), \<lparr>stderr = [UserError ''boom''],
                 store = (new, [''before the error'', ''Shell: hello''])\<rparr>) \<and>
     map fst new = [0, 2] \<and> raised new = [UserError ''boom'']"
proof -
  from Robot_receive_isolates_handlers [of demo_robot "shell_message ''hi there''" "[]" "[]" "[]"]
  obtain new s' where
    a: "Robot_receive (traced_robot demo_robot) (shell_message ''hi there'')
          \<lparr>stderr = [], store = ([], [])\<rparr> =
        (Inr (), \<lparr>stderr = [] @ raised new, store = ([] @ new, s')\<rparr>)"
    and b: "map fst new = map fst (filter (\<lambda>(i, l). matcher l (shell_message ''hi there'') \<noteq> None)
              (enumerate 0 (robot_listeners demo_robot)))"
    and c: "Robot_receive demo_robot (shell_message ''hi there'') \<lparr>stderr = [], store = []\<rparr> =
        (Inr (), \<lparr>stderr = [] @ raised new, store = s'\<rparr>)"
    by blast
  from c demo_run have r: "raised new = [UserError ''boom'']"
    and s: "s' = [''before the error'', ''Shell: hello'']"
    by simp_all
  from a b r s demo_matching show ?thesis
    by (intro exI [of _ new]) simp
qed

text \<open>
  C3 fails on the code for \<open>respond\<close>: its \<open>wrapper\<close> registers the listener and then
  falls off its end, so the call returns \<open>None\<close> and not the handler; the wrappers of
  \<open>hear\<close>, \<open>listen\<close> and \<open>on\<close> return the handler.
\<close>

theorem Robot_respond_returns_None:
  "fst (Robot_respond compile_literal pattern f robot) = Inr None \<and>
   length (robot_listeners (snd (Robot_respond compile_literal pattern f robot))) =
     Suc (length (robot_listeners robot)) \<and>
   fst (Robot_hear compile_literal pattern f robot) = Inr (Some f) \<and>
   fst (Robot_listen mt f robot) = Inr (Some f) \<and>
   fst (Robot_on etype h robot) = Inr (Some h)"
  by (simp add: Robot_respond_def Robot_hear_def Robot_listen_def Robot_on_def compile_literal_def
      Robot_add_listener_def)

text \<open>
  C4, as the code has it: on the base \<open>Adapter\<close>, \<open>send\<close>, \<open>reply\<close>, \<open>topic\<close> and
  \<open>play\<close> do nothing and \<open>emote\<close> delegates to \<open>send\<close>; the reply that sends the text
  with the user's name as a prefix is the override of \<open>ShellAdapter\<close>.
\<close>

theorem Adapter_defaults:
  "Adapter_send message txt out = (Inr (), out) \<and>
   Adapter_reply self_send message txt out = (Inr (), out) \<and>
   Adapter_topic message txt out = (Inr (), out) \<and>
   Adapter_play message txt out = (Inr (), out) \<and>
   Adapter_emote self_send message txt out = self_send message txt out \<and>
   (m_user message = Some u \<longrightarrow>
      ShellAdapter_reply self_send message txt out =
        self_send message (user_name u @ '': '' @ txt) out)"
  by (simp add: Adapter_send_def Adapter_reply_def Adapter_topic_def Adapter_play_def
      Adapter_emote_def ShellAdapter_reply_def)

text \<open>With the \<open>send\<close> of the shell adapter: the shell's \<open>reply\<close> prints
  \<open>Shell: hi\<close>, the base \<open>emote\<close> prints \<open>hi\<close>, the base \<open>reply\<close> prints nothing.\<close>

theorem Adapter_defaults_witness:
  "m_user (shell_message ''hello'') = Some \<lparr>user_id = None, user_name = ''Shell''\<rparr> \<and>
   ShellAdapter_reply ShellAdapter_send (shell_message ''hello'') ''hi'' [] =
     (Inr (), [''Shell: hi'']) \<and>
   Adapter_emote ShellAdapter_send (shell_message ''hello'') ''hi'' [] = (Inr (), [''hi'']) \<and>
   Adapter_reply ShellAdapter_send (shell_message ''hello'') ''hi'' [] = (Inr (), [])"
  using Adapter_defaults [of "shell_message ''hello''" "''hi''" "[]" ShellAdapter_send
      "\<lparr>user_id = None, user_name = ''Shell''\<rparr>"]
  by (simp add: shell_message_def ShellAdapter_send_def)

text \<open>
  C4 as stated fails: for an adapter whose \<open>send\<close> prints, the base \<open>reply\<close> writes
  nothing, where a reply that delegates to \<open>send\<close> with the name prefix would write
  \<open>Shell: hi\<close>.
\<close>

theorem Adapter_reply_counterexample:
  "Adapter_reply ShellAdapter_send (shell_message ''hello'') ''hi'' [] = (Inr (), []) \<and>
   spec_Adapter_reply ShellAdapter_send (shell_message ''hello'') ''hi'' [] =
     (Inr (), [''Shell: hi''])"
  by (simp add: Adapter_reply_def spec_Adapter_reply_def ShellAdapter_send_def shell_message_def)

end
